theory Spec2Isabelle
  imports Main "HOL-Library.Sublist"
begin

section \<open>The searchable select widget (searchable-select.tsx)\<close>

text \<open>
  A shallow embedding of the component \<^verbatim>\<open>SearchableSelect\<close> of
  \<^verbatim>\<open>webview-ui/src/components/ui/searchable-select.tsx\<close>. Props, React state,
  refs, the pending timers of the JavaScript runtime and the log of calls of the
  \<^verbatim>\<open>onValueChange\<close> callback are the fields of one record; every handler of the
  component is a function from that record to the updated record.
\<close>

subsection \<open>Options\<close>

text \<open>
  \<^verbatim>\<open>interface SearchableSelectOption { value: string; label: string;
  disabled?: boolean; icon?: React.ReactNode }\<close>. The fields carry the prefix
  \<open>opt_\<close> because \<open>value\<close> is a keyword of Isabelle and \<open>disabled\<close> is a prop of the
  component as well. An optional field is an \<open>option\<close>: \<open>None\<close> is \<^verbatim>\<open>undefined\<close>.
  The icon is an opaque handle that the component only passes on to the renderer.
\<close>

datatype ReactNode = ReactNode nat

record SearchableSelectOption =
  opt_value :: string
  opt_label :: string
  opt_disabled :: "bool option"
  opt_icon :: "ReactNode option"

text \<open>The truthiness of \<^verbatim>\<open>option.disabled\<close>: \<^verbatim>\<open>undefined\<close> and \<^verbatim>\<open>false\<close> are falsy.\<close>

definition is_disabled :: "SearchableSelectOption \<Rightarrow> bool" where
  "is_disabled option = (opt_disabled option = Some True)"

subsection \<open>Strings\<close>

text \<open>
  \<^verbatim>\<open>String.prototype.toLowerCase\<close> belongs to the runtime, not to the component, and
  maps far more than the letters of ASCII. The filter stage below therefore takes the
  lower-casing as a parameter \<open>lc\<close>, and what is proved of it holds for every such
  function. \<open>toLowerCase\<close> is its restriction to ASCII: the letters \<open>A\<close> to \<open>Z\<close> (codes
  65 to 90) move to \<open>a\<close> to \<open>z\<close>, every other character stays. It is the instance with
  which the component is run on the ASCII data of the test file.
\<close>

definition toLowerCase_char :: "char \<Rightarrow> char" where
  "toLowerCase_char c =
     (let n = (of_char c :: nat) in if 65 \<le> n \<and> n \<le> 90 then char_of (n + 32) else c)"

definition toLowerCase :: "string \<Rightarrow> string" where
  "toLowerCase s = map toLowerCase_char s"

text \<open>
  \<^verbatim>\<open>s.includes(t)\<close>: \<open>t\<close> occurs in \<open>s\<close> at some position; the empty string occurs in
  every string.
\<close>

fun str_includes :: "string \<Rightarrow> string \<Rightarrow> bool" where
  "str_includes [] t = (t = [])"
| "str_includes (c # s) t = (prefix t (c # s) \<or> str_includes s t)"

subsection \<open>Arrays and numbers\<close>

text \<open>\<^verbatim>\<open>Array.prototype.findIndex\<close>: the first index whose element satisfies \<open>P\<close>, or -1.\<close>

fun findIndex :: "('a \<Rightarrow> bool) \<Rightarrow> 'a list \<Rightarrow> int" where
  "findIndex P [] = - 1"
| "findIndex P (x # xs) =
     (if P x then 0 else (let i = findIndex P xs in if i = - 1 then - 1 else i + 1))"

text \<open>\<^verbatim>\<open>xs[i]\<close>: an index outside the array reads \<^verbatim>\<open>undefined\<close>.\<close>

definition js_index :: "'a list \<Rightarrow> int \<Rightarrow> 'a option" where
  "js_index xs i = (if 0 \<le> i \<and> i < int (length xs) then Some (xs ! nat i) else None)"

text \<open>
  The remainder operator \<^verbatim>\<open>a % b\<close> on integers: the result has the sign of the dividend.
  (For \<open>b = 0\<close> JavaScript gives \<^verbatim>\<open>NaN\<close>; the component never divides by 0.)
\<close>

definition js_rem :: "int \<Rightarrow> int \<Rightarrow> int" where
  "js_rem a b = sgn a * (\<bar>a\<bar> mod \<bar>b\<bar>)"

subsection \<open>The derived lists\<close>

text \<open>
  \<^verbatim>\<open>if (!searchValue) return options
  return options.filter((option) => option.label.toLowerCase().includes(searchValue.toLowerCase()))\<close>
  as a function of the contents of the array, with the lower-casing \<open>lc\<close> of the runtime.
\<close>

definition filteredOptionsWith ::
  "(string \<Rightarrow> string) \<Rightarrow> SearchableSelectOption list \<Rightarrow> string
     \<Rightarrow> SearchableSelectOption list" where
  "filteredOptionsWith lc opts sv =
     (if sv = [] then opts
      else filter (\<lambda>option. str_includes (lc (opt_label option)) (lc sv)) opts)"

text \<open>The instance with the lower-casing of ASCII, which the component below is run with.\<close>

definition filteredOptions ::
  "SearchableSelectOption list \<Rightarrow> string \<Rightarrow> SearchableSelectOption list" where
  "filteredOptions opts sv = filteredOptionsWith toLowerCase opts sv"

text \<open>
  The same lines with the arrays as objects. A store holds the arrays that exist, a
  reference is the position of an array in the store. \<^verbatim>\<open>Array.prototype.filter\<close> reads
  the array of its reference and allocates a new array for the result, whatever the
  result is; \<^verbatim>\<open>return options\<close> hands back the reference it was given and allocates
  nothing. A reference of the program always points into the store.
\<close>

type_synonym array_ref = nat

type_synonym array_store = "SearchableSelectOption list list"

definition array_filter ::
  "(SearchableSelectOption \<Rightarrow> bool) \<Rightarrow> array_ref \<Rightarrow> array_store
     \<Rightarrow> array_ref \<times> array_store" where
  "array_filter P r st = (length st, st @ [filter P (st ! r)])"

definition filteredOptions_memo ::
  "(string \<Rightarrow> string) \<Rightarrow> array_ref \<Rightarrow> string \<Rightarrow> array_store
     \<Rightarrow> array_ref \<times> array_store" where
  "filteredOptions_memo lc options_ref sv st =
     (if sv = [] then (options_ref, st)
      else array_filter (\<lambda>option. str_includes (lc (opt_label option)) (lc sv))
             options_ref st)"

text \<open>\<^verbatim>\<open>filteredOptions.filter((option) => !option.disabled)\<close>\<close>

definition enabledFilteredOptions ::
  "SearchableSelectOption list \<Rightarrow> SearchableSelectOption list" where
  "enabledFilteredOptions fo = filter (\<lambda>option. \<not> is_disabled option) fo"

text \<open>
  The contract of the filter stage in the words of the specification: the whole list for
  the empty search text, otherwise the options whose lower-cased label has the lower-cased
  search text as a contiguous sublist.
\<close>

definition spec_FilteredOptions ::
  "(string \<Rightarrow> string) \<Rightarrow> SearchableSelectOption list \<Rightarrow> string
     \<Rightarrow> SearchableSelectOption list" where
  "spec_FilteredOptions lc opts sv =
     (if sv = [] then opts
      else filter (\<lambda>option. sublist (lc sv) (lc (opt_label option))) opts)"

section \<open>The component\<close>

subsection \<open>Props, state, refs and timers\<close>

text \<open>
  The callback handed to \<^verbatim>\<open>setTimeout\<close>: the one of the effect on \<^verbatim>\<open>value\<close>,
  \<^verbatim>\<open>() => { if (isMountedRef.current) { setSearchValue("") } }\<close>, or the one of
  \<^verbatim>\<open>handleOpenChange\<close>, \<^verbatim>\<open>() => setSearchValue("")\<close>.
\<close>

datatype timer_callback = ValueReset | CloseReset

text \<open>
  The props \<^verbatim>\<open>value\<close> and \<^verbatim>\<open>options\<close>; the state \<^verbatim>\<open>open\<close>, \<^verbatim>\<open>searchValue\<close>,
  \<^verbatim>\<open>highlightedIndex\<close>; the refs \<^verbatim>\<open>searchResetTimeoutRef\<close> and \<^verbatim>\<open>isMountedRef\<close>;
  \<open>valueEffectTimeoutId\<close> is the constant \<^verbatim>\<open>timeoutId\<close> captured by the cleanup of the
  current run of the effect on \<^verbatim>\<open>value\<close>. \<open>timers\<close> are the timers of the runtime that
  are scheduled and have neither fired nor been cleared, \<open>nextTimerId\<close> the next handle
  (handles are truthy: they start at 1). \<open>onValueChange_calls\<close> logs the arguments of the
  calls of the prop \<^verbatim>\<open>onValueChange\<close>, oldest first. The display props (placeholder,
  searchPlaceholder, emptyMessage, className, disabled, data-testid) reach no handler and
  are left out.
\<close>

record widget =
  value_prop :: "string option"
  options :: "SearchableSelectOption list"
  is_open :: bool
  searchValue :: string
  highlightedIndex :: int
  searchResetTimeoutRef :: "nat option"
  isMountedRef :: bool
  valueEffectTimeoutId :: nat
  timers :: "(nat \<times> timer_callback) list"
  nextTimerId :: nat
  onValueChange_calls :: "string list"

text \<open>\<^verbatim>\<open>setTimeout(cb, 100)\<close> returns a fresh handle; \<^verbatim>\<open>clearTimeout(id)\<close> drops the timer.\<close>

definition setTimeout :: "timer_callback \<Rightarrow> widget \<Rightarrow> nat \<times> widget" where
  "setTimeout cb w =
     (nextTimerId w,
      w\<lparr>timers := timers w @ [(nextTimerId w, cb)], nextTimerId := Suc (nextTimerId w)\<rparr>)"

definition clearTimeout :: "nat \<Rightarrow> widget \<Rightarrow> widget" where
  "clearTimeout tid w = w\<lparr>timers := filter (\<lambda>t. fst t \<noteq> tid) (timers w)\<rparr>"

text \<open>The two memoised lists of a render.\<close>

definition visible :: "widget \<Rightarrow> SearchableSelectOption list" where
  "visible w = filteredOptions (options w) (searchValue w)"

definition navigable :: "widget \<Rightarrow> SearchableSelectOption list" where
  "navigable w = enabledFilteredOptions (visible w)"

text \<open>The truthiness of \<^verbatim>\<open>value\<close>: \<^verbatim>\<open>undefined\<close> and the empty string are falsy.\<close>

definition truthy_value :: "string option \<Rightarrow> bool" where
  "truthy_value v = (case v of None \<Rightarrow> False | Some s \<Rightarrow> s \<noteq> [])"

subsection \<open>Handlers\<close>

definition getDefaultHighlightedIndex :: "widget \<Rightarrow> int" where
  "getDefaultHighlightedIndex w =
     (if length (navigable w) = 0 then - 1
      else if truthy_value (value_prop w) then
        (let selectedEnabledOptionIndex =
               findIndex (\<lambda>option. Some (opt_value option) = value_prop w) (navigable w)
         in if selectedEnabledOptionIndex \<noteq> - 1 then selectedEnabledOptionIndex else 0)
      else 0)"

definition handleOpenChange :: "bool \<Rightarrow> widget \<Rightarrow> widget" where
  "handleOpenChange opn w =
     (let w1 = w\<lparr>is_open := opn,
                 highlightedIndex := (if opn then getDefaultHighlightedIndex w else - 1)\<rparr>
      in if \<not> opn then
           (let w2 = (case searchResetTimeoutRef w1 of
                        Some tid \<Rightarrow> clearTimeout tid w1
                      | None \<Rightarrow> w1);
                (tid', w3) = setTimeout CloseReset w2
            in w3\<lparr>searchResetTimeoutRef := Some tid'\<rparr>)
         else w1)"

definition handleSelect :: "string \<Rightarrow> widget \<Rightarrow> widget" where
  "handleSelect selectedValue w =
     w\<lparr>is_open := False, onValueChange_calls := onValueChange_calls w @ [selectedValue]\<rparr>"

definition handleClearSearch :: "widget \<Rightarrow> widget" where
  "handleClearSearch w = w\<lparr>searchValue := []\<rparr>"

definition handleSearchValueChange :: "string \<Rightarrow> widget \<Rightarrow> widget" where
  "handleSearchValueChange nextSearchValue w =
     w\<lparr>searchValue := nextSearchValue, highlightedIndex := 0\<rparr>"

datatype key = ArrowDown | ArrowUp | Enter | OtherKey

definition handleInputKeyDown :: "key \<Rightarrow> widget \<Rightarrow> widget" where
  "handleInputKeyDown k w =
     (if length (navigable w) = 0 then w
      else if k = ArrowDown \<or> k = ArrowUp then
        (let direction = (if k = ArrowDown then 1 else - 1);
             safeIndex = (if highlightedIndex w = - 1 then 0 else highlightedIndex w);
             nextIndex = js_rem (safeIndex + direction + int (length (navigable w)))
                                (int (length (navigable w)))
         in w\<lparr>highlightedIndex := nextIndex\<rparr>)
      else if k = Enter \<and> highlightedIndex w \<ge> 0 then
        (case js_index (navigable w) (highlightedIndex w) of
           Some highlightedOption \<Rightarrow> handleSelect (opt_value highlightedOption) w
         | None \<Rightarrow> w)
      else w)"

text \<open>
  The handlers of the row rendered for \<^verbatim>\<open>filteredOptions[i]\<close>:
  \<^verbatim>\<open>onSelect={() => handleSelect(option.value)}\<close> and
  \<^verbatim>\<open>onMouseEnter={() => !option.disabled && setHighlightedIndex(enabledOptionIndex)}\<close>.
  There is no row beyond the end of the list.
\<close>

definition row_onSelect :: "nat \<Rightarrow> widget \<Rightarrow> widget" where
  "row_onSelect i w =
     (if i < length (visible w) then handleSelect (opt_value (visible w ! i)) w else w)"

definition row_onMouseEnter :: "nat \<Rightarrow> widget \<Rightarrow> widget" where
  "row_onMouseEnter i w =
     (if i < length (visible w) then
        (let option = visible w ! i;
             enabledOptionIndex =
               findIndex (\<lambda>enabledOption. opt_value enabledOption = opt_value option)
                 (navigable w)
         in if \<not> is_disabled option then w\<lparr>highlightedIndex := enabledOptionIndex\<rparr> else w)
      else w)"

text \<open>
  Modelled from the spec: \<^verbatim>\<open>CommandItem\<close> of \<^verbatim>\<open>@/components/ui\<close> is not part of
  the sources. The row receives \<^verbatim>\<open>disabled={option.disabled}\<close>, and the specification
  says that a click on a disabled option is inert, prevented by this wiring of the
  collaborator; a click on any other row calls \<^verbatim>\<open>onSelect\<close>.
\<close>

definition CommandItem_click :: "nat \<Rightarrow> widget \<Rightarrow> widget" where
  "CommandItem_click i w =
     (if i < length (visible w) \<and> \<not> is_disabled (visible w ! i) then row_onSelect i w else w)"

text \<open>
  Modelled from the spec: the hook \<^verbatim>\<open>useEscapeKey\<close> is not part of the sources. The
  component calls \<^verbatim>\<open>useEscapeKey(open, () => setOpen(false))\<close>; by the specification the
  Escape key closes the open popover without selecting.
\<close>

definition escapeKey :: "widget \<Rightarrow> widget" where
  "escapeKey w = (if is_open w then w\<lparr>is_open := False\<rparr> else w)"

subsection \<open>Effects and lifecycle\<close>

text \<open>
  The effect on \<^verbatim>\<open>[value]\<close>: its body schedules the reset, its cleanup clears the timer
  of its own run.
\<close>

definition valueEffect_run :: "widget \<Rightarrow> widget" where
  "valueEffect_run w =
     (let (timeoutId, w') = setTimeout ValueReset w in w'\<lparr>valueEffectTimeoutId := timeoutId\<rparr>)"

definition valueEffect_cleanup :: "widget \<Rightarrow> widget" where
  "valueEffect_cleanup w = clearTimeout (valueEffectTimeoutId w) w"

text \<open>The cleanup of the effect on \<^verbatim>\<open>[]\<close>.\<close>

definition unmountEffect_cleanup :: "widget \<Rightarrow> widget" where
  "unmountEffect_cleanup w =
     (let w1 = w\<lparr>isMountedRef := False\<rparr>
      in case searchResetTimeoutRef w1 of Some tid \<Rightarrow> clearTimeout tid w1 | None \<Rightarrow> w1)"

text \<open>
  The first render with the initial values of \<^verbatim>\<open>useState\<close> and \<^verbatim>\<open>useRef\<close>, followed
  by the first run of the effects.
\<close>

definition mount :: "string option \<Rightarrow> SearchableSelectOption list \<Rightarrow> widget" where
  "mount v opts =
     valueEffect_run
       \<lparr>value_prop = v, options = opts, is_open = False, searchValue = [],
        highlightedIndex = - 1, searchResetTimeoutRef = None, isMountedRef = True,
        valueEffectTimeoutId = 0, timers = [], nextTimerId = 1, onValueChange_calls = []\<rparr>"

text \<open>
  A render with a new \<^verbatim>\<open>value\<close> prop: the dependency changed, so the cleanup of the last
  run and then the body run again. A render with the same value runs neither.
\<close>

definition valuePropChange :: "string option \<Rightarrow> widget \<Rightarrow> widget" where
  "valuePropChange v w =
     (if v = value_prop w then w
      else valueEffect_run (valueEffect_cleanup (w\<lparr>value_prop := v\<rparr>)))"

definition optionsPropChange :: "SearchableSelectOption list \<Rightarrow> widget \<Rightarrow> widget" where
  "optionsPropChange opts w = w\<lparr>options := opts\<rparr>"

text \<open>Teardown runs the cleanups of both effects.\<close>

definition unmount :: "widget \<Rightarrow> widget" where
  "unmount w = valueEffect_cleanup (unmountEffect_cleanup w)"

fun run_callback :: "timer_callback \<Rightarrow> widget \<Rightarrow> widget" where
  "run_callback ValueReset w = (if isMountedRef w then w\<lparr>searchValue := []\<rparr> else w)"
| "run_callback CloseReset w = w\<lparr>searchValue := []\<rparr>"

text \<open>
  The runtime fires the timer with handle \<open>tid\<close>: a pending timer leaves the queue and its
  callback runs; a handle that is not pending fires nothing.
\<close>

definition timerFires :: "nat \<Rightarrow> widget \<Rightarrow> widget" where
  "timerFires tid w =
     (case find (\<lambda>t. fst t = tid) (timers w) of
        None \<Rightarrow> w
      | Some t \<Rightarrow> run_callback (snd t) (clearTimeout tid w))"

subsection \<open>Events\<close>

text \<open>
  What can happen to a mounted component. The delay of 100 ms is abstracted: a pending
  timer may fire at any later moment. After teardown no handler is called any more; only
  the runtime may still fire timers that are pending.
\<close>

datatype event =
    OpenChange bool
  | EscapeKey
  | SearchValueChange string
  | ClearSearchClick
  | KeyDown key
  | ItemClick nat
  | ItemMouseEnter nat
  | ValuePropChange "string option"
  | OptionsPropChange "SearchableSelectOption list"
  | TimerFires nat
  | Unmount

fun step :: "widget \<Rightarrow> event \<Rightarrow> widget" where
  "step w (TimerFires tid) = timerFires tid w"
| "step w e =
     (if \<not> isMountedRef w then w
      else case e of
        OpenChange opn \<Rightarrow> handleOpenChange opn w
      | EscapeKey \<Rightarrow> escapeKey w
      | SearchValueChange s \<Rightarrow> handleSearchValueChange s w
      | ClearSearchClick \<Rightarrow> (if length (searchValue w) > 0 then handleClearSearch w else w)
      | KeyDown k \<Rightarrow> handleInputKeyDown k w
      | ItemClick i \<Rightarrow> CommandItem_click i w
      | ItemMouseEnter i \<Rightarrow> row_onMouseEnter i w
      | ValuePropChange v \<Rightarrow> valuePropChange v w
      | OptionsPropChange opts \<Rightarrow> optionsPropChange opts w
      | Unmount \<Rightarrow> unmount w
      | TimerFires tid \<Rightarrow> w)"

definition run :: "widget \<Rightarrow> event list \<Rightarrow> widget" where
  "run w es = foldl step w es"

text \<open>The events by which the caller replaces the \<^verbatim>\<open>options\<close> prop.\<close>

fun changes_options :: "event \<Rightarrow> bool" where
  "changes_options (OptionsPropChange opts) = True"
| "changes_options e = False"

subsection \<open>The bookkeeping of the timers\<close>

text \<open>
  What the component keeps true of the pending timers: every handle is older than the next
  one, a pending reset of a close is the timer that \<^verbatim>\<open>searchResetTimeoutRef\<close> holds, a
  pending reset of the effect on \<^verbatim>\<open>value\<close> is the timer of the last run of that
  effect, no two pending timers share a handle, the two kinds never share a handle, and
  after teardown nothing is pending.
\<close>

definition timers_inv :: "widget \<Rightarrow> bool" where
  "timers_inv w \<longleftrightarrow>
     (\<forall>t\<in>set (timers w). fst t < nextTimerId w)
     \<and> (\<forall>t\<in>set (timers w). snd t = CloseReset \<longrightarrow> searchResetTimeoutRef w = Some (fst t))
     \<and> (\<forall>t\<in>set (timers w). snd t = ValueReset \<longrightarrow> valueEffectTimeoutId w = fst t)
     \<and> distinct (map fst (timers w))
     \<and> (\<forall>i. searchResetTimeoutRef w = Some i \<longrightarrow> i < nextTimerId w \<and> i \<noteq> valueEffectTimeoutId w)
     \<and> valueEffectTimeoutId w < nextTimerId w
     \<and> (\<not> isMountedRef w \<longrightarrow> timers w = [])"

subsection \<open>The data of the test file\<close>

definition test_options :: "SearchableSelectOption list" where
  "test_options =
     [\<lparr>opt_value = ''a'', opt_label = ''Alpha'', opt_disabled = None, opt_icon = None\<rparr>,
      \<lparr>opt_value = ''b'', opt_label = ''Beta'', opt_disabled = None, opt_icon = None\<rparr>,
      \<lparr>opt_value = ''c'', opt_label = ''Gamma'', opt_disabled = None, opt_icon = None\<rparr>]"

definition test_options_disabled :: "SearchableSelectOption list" where
  "test_options_disabled =
     [\<lparr>opt_value = ''a'', opt_label = ''Alpha'', opt_disabled = None, opt_icon = None\<rparr>,
      \<lparr>opt_value = ''b'', opt_label = ''Beta'', opt_disabled = Some True, opt_icon = None\<rparr>,
      \<lparr>opt_value = ''c'', opt_label = ''Gamma'', opt_disabled = None, opt_icon = None\<rparr>]"

section \<open>Properties\<close>

subsection \<open>Strings and arrays\<close>

lemma str_includes_sublist: "str_includes s t = sublist t s"
  by (induction s) (simp_all add: sublist_Cons_right)

lemma findIndex_ge: "- 1 \<le> findIndex P xs"
  by (induction xs) (auto simp: Let_def)

lemma findIndex_lt: "findIndex P xs < int (length xs)"
  by (induction xs) (auto simp: Let_def)

lemma findIndex_none: "findIndex P xs = - 1 \<longleftrightarrow> (\<forall>x\<in>set xs. \<not> P x)"
proof (induction xs)
  case Nil
  show ?case by simp
next
  case (Cons x xs)
  have "- 1 \<le> findIndex P xs" by (rule findIndex_ge)
  with Cons show ?case by (auto simp: Let_def)
qed

lemma findIndex_nth: "findIndex P xs \<noteq> - 1 \<Longrightarrow> P (xs ! nat (findIndex P xs))"
proof (induction xs)
  case Nil
  then show ?case by simp
next
  case (Cons x xs)
  have ge: "- 1 \<le> findIndex P xs" by (rule findIndex_ge)
  show ?case
  proof (cases "P x")
    case True
    then show ?thesis by simp
  next
    case False
    with Cons.prems have ne: "findIndex P xs \<noteq> - 1" by (auto simp: Let_def)
    with ge have pos: "0 \<le> findIndex P xs" by arith
    have "nat (findIndex P xs + 1) = Suc (nat (findIndex P xs))" using pos by arith
    with False ne Cons.IH show ?thesis by (simp add: Let_def)
  qed
qed

lemma js_rem_nonneg: "0 \<le> a \<Longrightarrow> 0 < b \<Longrightarrow> js_rem a b = a mod b"
  by (cases "a = 0") (simp_all add: js_rem_def)

subsection \<open>The scenarios of the test file\<close>

text \<open>
  The two tests of the repository render the component, press ArrowDown and then Enter on
  the search input, and expect \<^verbatim>\<open>onValueChange\<close> to be called with \<open>b\<close>, and with \<open>c\<close>
  when \<open>b\<close> is disabled.
\<close>

lemma test_selects_next_option:
  "onValueChange_calls (run (mount (Some ''a'') test_options)
      [KeyDown ArrowDown, KeyDown Enter]) = [''b'']"
  by code_simp

lemma test_skips_disabled_options:
  "onValueChange_calls (run (mount (Some ''a'') test_options_disabled)
      [KeyDown ArrowDown, KeyDown Enter]) = [''c'']"
  by code_simp

subsection \<open>The filter stage\<close>

lemma filteredOptions_unfold:
  "filteredOptions opts sv =
     (if sv = [] then opts
      else filter (\<lambda>option. str_includes (toLowerCase (opt_label option)) (toLowerCase sv)) opts)"
  by (simp add: filteredOptions_def filteredOptionsWith_def)

lemma filteredOptions_memo_contents:
  "options_ref < length st \<Longrightarrow>
     snd (filteredOptions_memo lc options_ref sv st) ! fst (filteredOptions_memo lc options_ref sv st)
       = filteredOptionsWith lc (st ! options_ref) sv"
  by (simp add: filteredOptions_memo_def filteredOptionsWith_def array_filter_def)

lemma filteredOptions_memo_store:
  "take (length st) (snd (filteredOptions_memo lc options_ref sv st)) = st"
  by (simp add: filteredOptions_memo_def array_filter_def)

text \<open>
  Claim C5. The visible list is a function of the options and the search text alone. For
  the empty search text it is the array of the options itself: the same reference, with
  nothing allocated. Otherwise it is a new array that holds exactly the options, in their
  order, whose lower-cased label contains the lower-cased search text. In both cases no
  array that existed is changed, and every visible option has a label that contains the
  search text up to case. This holds for every lower-casing \<open>lc\<close> of the runtime; that the
  empty search text is contained in every label uses only that the empty string has no
  letter to lower-case.
\<close>

theorem filteredOptions_contract:
  "options_ref < length st \<Longrightarrow>
     filteredOptions_memo lc options_ref [] st = (options_ref, st)
     \<and> (sv \<noteq> [] \<longrightarrow> fst (filteredOptions_memo lc options_ref sv st) \<noteq> options_ref)
     \<and> snd (filteredOptions_memo lc options_ref sv st)
           ! fst (filteredOptions_memo lc options_ref sv st)
         = filteredOptionsWith lc (st ! options_ref) sv
     \<and> take (length st) (snd (filteredOptions_memo lc options_ref sv st)) = st
     \<and> filteredOptionsWith lc opts sv = spec_FilteredOptions lc opts sv
     \<and> filteredOptionsWith lc opts [] = opts
     \<and> subseq (filteredOptionsWith lc opts sv) opts
     \<and> (sv \<noteq> [] \<or> lc [] = [] \<longrightarrow>
          (\<forall>option\<in>set (filteredOptionsWith lc opts sv).
             sublist (lc sv) (lc (opt_label option))))
     \<and> filteredOptions opts sv = filteredOptionsWith toLowerCase opts sv"
proof -
  assume r: "options_ref < length st"
  have same: "filteredOptions_memo lc options_ref [] st = (options_ref, st)"
    by (simp add: filteredOptions_memo_def)
  have fresh: "sv \<noteq> [] \<longrightarrow> fst (filteredOptions_memo lc options_ref sv st) \<noteq> options_ref"
    using r by (simp add: filteredOptions_memo_def array_filter_def)
  have contents: "snd (filteredOptions_memo lc options_ref sv st)
           ! fst (filteredOptions_memo lc options_ref sv st)
         = filteredOptionsWith lc (st ! options_ref) sv"
    using r by (rule filteredOptions_memo_contents)
  have store: "take (length st) (snd (filteredOptions_memo lc options_ref sv st)) = st"
    by (rule filteredOptions_memo_store)
  have eq: "filteredOptionsWith lc opts sv = spec_FilteredOptions lc opts sv"
    by (simp add: filteredOptionsWith_def spec_FilteredOptions_def str_includes_sublist)
  have ident: "filteredOptionsWith lc opts [] = opts"
    by (simp add: filteredOptionsWith_def)
  have sub: "subseq (filteredOptionsWith lc opts sv) opts"
    by (simp add: filteredOptionsWith_def)
  have mem: "sv \<noteq> [] \<or> lc [] = [] \<longrightarrow>
          (\<forall>option\<in>set (filteredOptionsWith lc opts sv).
             sublist (lc sv) (lc (opt_label option)))"
  proof (cases "sv = []")
    case True
    then show ?thesis by simp
  next
    case False
    then show ?thesis
      by (simp add: filteredOptionsWith_def str_includes_sublist)
  qed
  have inst: "filteredOptions opts sv = filteredOptionsWith toLowerCase opts sv"
    by (simp add: filteredOptions_def)
  from same fresh contents store eq ident sub mem inst show ?thesis by blast
qed

theorem filteredOptions_contract_witness:
  "(0::nat) < length [test_options] \<and> ''MM'' \<noteq> []
   \<and> filteredOptions_memo toLowerCase 0 [] [test_options] = (0, [test_options])
   \<and> filteredOptions_memo toLowerCase 0 ''MM'' [test_options]
       = (1, [test_options,
              [\<lparr>opt_value = ''c'', opt_label = ''Gamma'', opt_disabled = None, opt_icon = None\<rparr>]])
   \<and> filteredOptions ([test_options] ! 0) ''MM'' =
       [\<lparr>opt_value = ''c'', opt_label = ''Gamma'', opt_disabled = None, opt_icon = None\<rparr>]
   \<and> sublist (toLowerCase ''MM'') (toLowerCase ''Gamma'')"
proof -
  have r: "(0::nat) < length [test_options]" by simp
  have m: "filteredOptions_memo toLowerCase 0 ''MM'' [test_options]
       = (1, [test_options,
              [\<lparr>opt_value = ''c'', opt_label = ''Gamma'', opt_disabled = None, opt_icon = None\<rparr>]])"
    by code_simp
  note c = filteredOptions_contract [OF r, of toLowerCase "''MM''" "[test_options] ! 0"]
  from c have same: "filteredOptions_memo toLowerCase 0 [] [test_options] = (0, [test_options])"
    by blast
  from c have "snd (filteredOptions_memo toLowerCase 0 ''MM'' [test_options])
           ! fst (filteredOptions_memo toLowerCase 0 ''MM'' [test_options])
         = filteredOptionsWith toLowerCase ([test_options] ! 0) ''MM''"
    by blast
  with m have w: "filteredOptionsWith toLowerCase ([test_options] ! 0) ''MM'' =
       [\<lparr>opt_value = ''c'', opt_label = ''Gamma'', opt_disabled = None, opt_icon = None\<rparr>]"
    by simp
  from c have i: "filteredOptions ([test_options] ! 0) ''MM''
       = filteredOptionsWith toLowerCase ([test_options] ! 0) ''MM''"
    by blast
  from c have "\<forall>option\<in>set (filteredOptionsWith toLowerCase ([test_options] ! 0) ''MM'').
          sublist (toLowerCase ''MM'') (toLowerCase (opt_label option))"
    by blast
  with w have s: "sublist (toLowerCase ''MM'') (toLowerCase ''Gamma'')" by simp
  from r m same w i s show ?thesis by simp
qed

text \<open>
  An instance beyond ASCII: with a lower-casing that also maps the character of code 201
  to the one of code 233, the option labelled with the former is visible for the search
  text made of the latter, as the contract says.
\<close>

lemma filteredOptionsWith_beyond_ascii:
  "filteredOptionsWith (map (\<lambda>c. if c = char_of (201::nat) then char_of (233::nat) else c))
     [\<lparr>opt_value = ''e'', opt_label = [char_of (201::nat)], opt_disabled = None, opt_icon = None\<rparr>]
     [char_of (233::nat)]
   = [\<lparr>opt_value = ''e'', opt_label = [char_of (201::nat)], opt_disabled = None, opt_icon = None\<rparr>]"
  by code_simp

subsection \<open>The navigable subset\<close>

text \<open>
  Claim C6. The navigable list is exactly the visible options that are not disabled, in
  their order: a subsequence of the visible list without any disabled entry.
\<close>

theorem enabledFilteredOptions_contract:
  "enabledFilteredOptions (filteredOptions opts sv) =
     filter (\<lambda>option. opt_disabled option \<noteq> Some True) (filteredOptions opts sv)
   \<and> subseq (enabledFilteredOptions (filteredOptions opts sv)) (filteredOptions opts sv)
   \<and> (\<forall>option\<in>set (enabledFilteredOptions (filteredOptions opts sv)).
        opt_disabled option \<noteq> Some True)"
  by (simp add: enabledFilteredOptions_def is_disabled_def)

theorem enabledFilteredOptions_contract_witness:
  "enabledFilteredOptions (filteredOptions test_options_disabled ''A'') =
     [\<lparr>opt_value = ''a'', opt_label = ''Alpha'', opt_disabled = None, opt_icon = None\<rparr>,
      \<lparr>opt_value = ''c'', opt_label = ''Gamma'', opt_disabled = None, opt_icon = None\<rparr>]
   \<and> opt_disabled \<lparr>opt_value = ''c'', opt_label = ''Gamma'', opt_disabled = None, opt_icon = None\<rparr>
       \<noteq> Some True"
proof -
  have e: "enabledFilteredOptions (filteredOptions test_options_disabled ''A'') =
     [\<lparr>opt_value = ''a'', opt_label = ''Alpha'', opt_disabled = None, opt_icon = None\<rparr>,
      \<lparr>opt_value = ''c'', opt_label = ''Gamma'', opt_disabled = None, opt_icon = None\<rparr>]"
    by code_simp
  from enabledFilteredOptions_contract [of test_options_disabled "''A''"]
  have "\<forall>option\<in>set (enabledFilteredOptions (filteredOptions test_options_disabled ''A'')).
          opt_disabled option \<noteq> Some True"
    by blast
  with e show ?thesis by simp
qed

subsection \<open>The highlight on open\<close>

lemma handleOpenChange_True:
  "handleOpenChange True w = w\<lparr>is_open := True, highlightedIndex := getDefaultHighlightedIndex w\<rparr>"
  by (simp add: handleOpenChange_def)

lemma findIndex_first: "j < nat (findIndex P xs) \<Longrightarrow> \<not> P (xs ! j)"
proof (induction xs arbitrary: j)
  case Nil
  then show ?case by simp
next
  case (Cons x xs)
  have ge: "- 1 \<le> findIndex P xs" by (rule findIndex_ge)
  show ?case
  proof (cases "P x")
    case True
    with Cons.prems show ?thesis by simp
  next
    case False
    show ?thesis
    proof (cases j)
      case 0
      with False show ?thesis by simp
    next
      case (Suc k)
      from Cons.prems False have "findIndex P xs \<noteq> - 1"
        by (auto simp: Let_def)
      with Cons.prems False Suc ge have "k < nat (findIndex P xs)"
        by (simp add: Let_def)
      then have "\<not> P (xs ! k)" by (rule Cons.IH)
      with Suc show ?thesis by simp
    qed
  qed
qed

text \<open>
  Claim C1, amended. Every open sets the highlight by the three-tier rule, whatever the
  highlight was before: -1 without navigable options; the index of the first navigable
  option whose value is the selected value, if the selected value is a non-empty string
  and such an option exists; 0 otherwise. An absent and an empty-string \<^verbatim>\<open>value\<close> both
  count as no selection.
\<close>

theorem handleOpenChange_three_tier:
  "is_open (handleOpenChange True w)
   \<and> highlightedIndex (handleOpenChange True (w\<lparr>highlightedIndex := h\<rparr>))
       = highlightedIndex (handleOpenChange True w)
   \<and> (navigable w = [] \<longrightarrow> highlightedIndex (handleOpenChange True w) = - 1)
   \<and> (navigable w \<noteq> [] \<and> value_prop w = Some v \<and> v \<noteq> []
        \<and> (\<exists>option\<in>set (navigable w). opt_value option = v) \<longrightarrow>
          0 \<le> highlightedIndex (handleOpenChange True w)
          \<and> highlightedIndex (handleOpenChange True w) < int (length (navigable w))
          \<and> opt_value (navigable w ! nat (highlightedIndex (handleOpenChange True w))) = v
          \<and> (\<forall>j < nat (highlightedIndex (handleOpenChange True w)).
                opt_value (navigable w ! j) \<noteq> v))
   \<and> (navigable w \<noteq> []
        \<and> (value_prop w = None \<or> value_prop w = Some []
            \<or> (\<forall>option\<in>set (navigable w). Some (opt_value option) \<noteq> value_prop w)) \<longrightarrow>
          highlightedIndex (handleOpenChange True w) = 0)"
proof -
  let ?P = "\<lambda>option. Some (opt_value option) = value_prop w"
  let ?i = "findIndex ?P (navigable w)"
  have hi: "highlightedIndex (handleOpenChange True w) = getDefaultHighlightedIndex w"
    by (simp add: handleOpenChange_True)
  have a: "is_open (handleOpenChange True w)"
    by (simp add: handleOpenChange_True)
  have b: "highlightedIndex (handleOpenChange True (w\<lparr>highlightedIndex := h\<rparr>))
       = highlightedIndex (handleOpenChange True w)"
    by (simp add: handleOpenChange_True getDefaultHighlightedIndex_def navigable_def visible_def)
  have c: "navigable w = [] \<longrightarrow> highlightedIndex (handleOpenChange True w) = - 1"
    by (simp add: hi getDefaultHighlightedIndex_def)
  have d: "0 \<le> highlightedIndex (handleOpenChange True w)
          \<and> highlightedIndex (handleOpenChange True w) < int (length (navigable w))
          \<and> opt_value (navigable w ! nat (highlightedIndex (handleOpenChange True w))) = v
          \<and> (\<forall>j < nat (highlightedIndex (handleOpenChange True w)).
                opt_value (navigable w ! j) \<noteq> v)"
    if ne: "navigable w \<noteq> []" and v: "value_prop w = Some v" "v \<noteq> []"
      and ex: "\<exists>option\<in>set (navigable w). opt_value option = v"
  proof -
    from ex v have found: "?i \<noteq> - 1" by (simp add: findIndex_none)
    with ne v have g: "getDefaultHighlightedIndex w = ?i"
      by (simp add: getDefaultHighlightedIndex_def truthy_value_def Let_def)
    have "- 1 \<le> ?i" by (rule findIndex_ge)
    with found have pos: "0 \<le> ?i" by arith
    have lt: "?i < int (length (navigable w))" by (rule findIndex_lt)
    from found have "?P (navigable w ! nat ?i)" by (rule findIndex_nth)
    with v have at: "opt_value (navigable w ! nat ?i) = v" by simp
    have first: "\<forall>j < nat ?i. opt_value (navigable w ! j) \<noteq> v"
    proof (intro allI impI)
      fix j assume "j < nat ?i"
      then have "\<not> ?P (navigable w ! j)" by (rule findIndex_first)
      with v show "opt_value (navigable w ! j) \<noteq> v" by simp
    qed
    from pos lt at first show ?thesis by (simp add: hi g)
  qed
  have e: "highlightedIndex (handleOpenChange True w) = 0"
    if ne: "navigable w \<noteq> []"
      and no: "value_prop w = None \<or> value_prop w = Some []
            \<or> (\<forall>option\<in>set (navigable w). Some (opt_value option) \<noteq> value_prop w)"
  proof -
    from no have "\<not> truthy_value (value_prop w) \<or> ?i = - 1"
      by (auto simp: truthy_value_def findIndex_none)
    with ne show ?thesis
      by (auto simp: hi getDefaultHighlightedIndex_def Let_def)
  qed
  from a b c d e show ?thesis by blast
qed

theorem handleOpenChange_three_tier_witness:
  "navigable (mount (Some ''c'') test_options_disabled) \<noteq> []
   \<and> value_prop (mount (Some ''c'') test_options_disabled) = Some ''c'' \<and> ''c'' \<noteq> []
   \<and> opt_value (navigable (mount (Some ''c'') test_options_disabled) ! 1) = ''c''
   \<and> highlightedIndex (handleOpenChange True (mount (Some ''c'') test_options_disabled)) = 1
   \<and> opt_value (navigable (mount (Some ''c'') test_options_disabled)
        ! nat (highlightedIndex (handleOpenChange True (mount (Some ''c'') test_options_disabled))))
       = ''c''
   \<and> navigable (mount (Some ''a'') []) = []
   \<and> highlightedIndex (handleOpenChange True (mount (Some ''a'') [])) = - 1
   \<and> value_prop (mount None test_options) = None
   \<and> highlightedIndex (handleOpenChange True (mount None test_options)) = 0"
proof -
  let ?w = "mount (Some ''c'') test_options_disabled"
  have n: "navigable ?w =
     [\<lparr>opt_value = ''a'', opt_label = ''Alpha'', opt_disabled = None, opt_icon = None\<rparr>,
      \<lparr>opt_value = ''c'', opt_label = ''Gamma'', opt_disabled = None, opt_icon = None\<rparr>]"
    by code_simp
  have v: "value_prop ?w = Some ''c''" by code_simp
  have h: "highlightedIndex (handleOpenChange True ?w) = 1" by code_simp
  from handleOpenChange_three_tier [of ?w _ "''c''"] n v
  have 1: "opt_value (navigable ?w ! nat (highlightedIndex (handleOpenChange True ?w))) = ''c''"
    by simp
  have e: "navigable (mount (Some ''a'') []) = []" by code_simp
  from handleOpenChange_three_tier [of "mount (Some ''a'') []"] e
  have 2: "highlightedIndex (handleOpenChange True (mount (Some ''a'') [])) = - 1"
    by blast
  have n3: "navigable (mount None test_options) \<noteq> []" by code_simp
  have v3: "value_prop (mount None test_options) = None" by code_simp
  from handleOpenChange_three_tier [of "mount None test_options"] n3 v3
  have 3: "highlightedIndex (handleOpenChange True (mount None test_options)) = 0"
    by blast
  from n v h 1 e 2 v3 3 show ?thesis by simp
qed

text \<open>
  The claim as it was stated has the rule hold for an empty-string selected value that
  matches an option. With the options \<open>a\<close> and the empty-string option \<open>None\<close> and the empty
  string as \<^verbatim>\<open>value\<close>, the selected option is the navigable entry of index 1, yet opening
  highlights index 0: \<^verbatim>\<open>if (value)\<close> takes the empty string for no selection.
\<close>

theorem handleOpenChange_empty_string_counterexample:
  "navigable (mount (Some '''')
       [\<lparr>opt_value = ''a'', opt_label = ''Alpha'', opt_disabled = None, opt_icon = None\<rparr>,
        \<lparr>opt_value = '''', opt_label = ''None'', opt_disabled = None, opt_icon = None\<rparr>]) ! 1
     = \<lparr>opt_value = '''', opt_label = ''None'', opt_disabled = None, opt_icon = None\<rparr>
   \<and> highlightedIndex (handleOpenChange True (mount (Some '''')
       [\<lparr>opt_value = ''a'', opt_label = ''Alpha'', opt_disabled = None, opt_icon = None\<rparr>,
        \<lparr>opt_value = '''', opt_label = ''None'', opt_disabled = None, opt_icon = None\<rparr>])) = 0"
  by code_simp

subsection \<open>Arrow keys\<close>

text \<open>
  Claim C2, amended. With \<open>N > 0\<close> navigable options and a highlight of at least -1,
  ArrowDown moves the highlight to \<open>((current = -1 ? 0 : current) + 1) mod N\<close> and ArrowUp
  to \<open>((current = -1 ? 0 : current) - 1 + N) mod N\<close>, and nothing else changes: a
  highlight of -1 counts as index 0 and the step is taken from there. With \<open>N = 0\<close> both
  keys leave the state as it is. In particular ArrowDown from \<open>N - 1\<close> gives 0, ArrowUp
  from 0 gives \<open>N - 1\<close>, and from -1 ArrowDown gives \<open>1 mod N\<close> and ArrowUp \<open>N - 1\<close>.
\<close>

theorem handleInputKeyDown_arrows:
  "(0 < length (navigable w) \<and> - 1 \<le> highlightedIndex w \<longrightarrow>
      handleInputKeyDown ArrowDown w =
        w\<lparr>highlightedIndex :=
             ((if highlightedIndex w = - 1 then 0 else highlightedIndex w) + 1)
               mod int (length (navigable w))\<rparr>
      \<and> handleInputKeyDown ArrowUp w =
        w\<lparr>highlightedIndex :=
             ((if highlightedIndex w = - 1 then 0 else highlightedIndex w) - 1
                + int (length (navigable w))) mod int (length (navigable w))\<rparr>)
   \<and> (length (navigable w) = 0 \<longrightarrow>
        handleInputKeyDown ArrowDown w = w \<and> handleInputKeyDown ArrowUp w = w)
   \<and> (0 < length (navigable w) \<longrightarrow>
        (highlightedIndex w = int (length (navigable w)) - 1 \<longrightarrow>
           highlightedIndex (handleInputKeyDown ArrowDown w) = 0)
        \<and> (highlightedIndex w = 0 \<longrightarrow>
           highlightedIndex (handleInputKeyDown ArrowUp w) = int (length (navigable w)) - 1)
        \<and> (highlightedIndex w = - 1 \<longrightarrow>
           highlightedIndex (handleInputKeyDown ArrowDown w) = 1 mod int (length (navigable w))
           \<and> highlightedIndex (handleInputKeyDown ArrowUp w) = int (length (navigable w)) - 1))"
proof -
  have noop: "length (navigable w) = 0 \<longrightarrow>
        handleInputKeyDown ArrowDown w = w \<and> handleInputKeyDown ArrowUp w = w"
    by (simp add: handleInputKeyDown_def)
  have move: "handleInputKeyDown ArrowDown w =
        w\<lparr>highlightedIndex :=
             ((if highlightedIndex w = - 1 then 0 else highlightedIndex w) + 1)
               mod int (length (navigable w))\<rparr>
      \<and> handleInputKeyDown ArrowUp w =
        w\<lparr>highlightedIndex :=
             ((if highlightedIndex w = - 1 then 0 else highlightedIndex w) - 1
                + int (length (navigable w))) mod int (length (navigable w))\<rparr>"
    if n: "0 < length (navigable w)" and h: "- 1 \<le> highlightedIndex w"
  proof -
    define n where "n = int (length (navigable w))"
    define s where "s = (if highlightedIndex w = - 1 then 0 else highlightedIndex w)"
    have npos: "0 < n" using n by (simp add: n_def)
    have spos: "0 \<le> s" using h by (simp add: s_def)
    have down: "js_rem (s + 1 + n) n = (s + 1) mod n"
      using npos spos by (simp add: js_rem_nonneg)
    have up: "js_rem (s + - 1 + n) n = (s - 1 + n) mod n"
      using npos spos by (simp add: js_rem_nonneg)
    from n down up show ?thesis
      by (simp add: handleInputKeyDown_def Let_def n_def s_def)
  qed
  have ends: "(highlightedIndex w = int (length (navigable w)) - 1 \<longrightarrow>
           highlightedIndex (handleInputKeyDown ArrowDown w) = 0)
        \<and> (highlightedIndex w = 0 \<longrightarrow>
           highlightedIndex (handleInputKeyDown ArrowUp w) = int (length (navigable w)) - 1)
        \<and> (highlightedIndex w = - 1 \<longrightarrow>
           highlightedIndex (handleInputKeyDown ArrowDown w) = 1 mod int (length (navigable w))
           \<and> highlightedIndex (handleInputKeyDown ArrowUp w) = int (length (navigable w)) - 1)"
    if n: "0 < length (navigable w)"
  proof -
    define N where "N = int (length (navigable w))"
    have npos: "0 < N" using n by (simp add: N_def)
    have last: "(N - 1) mod N = N - 1" "- 1 mod N = N - 1"
      using npos by (simp_all add: zmod_minus1)
    have 1: "highlightedIndex (handleInputKeyDown ArrowDown w) = 0"
      if h: "highlightedIndex w = N - 1"
    proof -
      from h npos have "- 1 \<le> highlightedIndex w" "highlightedIndex w \<noteq> - 1" by simp_all
      with move [OF n] h show ?thesis by (simp add: N_def)
    qed
    have 2: "highlightedIndex (handleInputKeyDown ArrowUp w) = N - 1"
      if h: "highlightedIndex w = 0"
    proof -
      from move [OF n] h
      have "highlightedIndex (handleInputKeyDown ArrowUp w) = (0 - 1 + N) mod N"
        by (simp add: N_def)
      with last show ?thesis by simp
    qed
    have 3: "highlightedIndex (handleInputKeyDown ArrowDown w) = 1 mod N
           \<and> highlightedIndex (handleInputKeyDown ArrowUp w) = N - 1"
      if h: "highlightedIndex w = - 1"
    proof -
      from move [OF n] h
      have "highlightedIndex (handleInputKeyDown ArrowDown w) = (0 + 1) mod N"
        and "highlightedIndex (handleInputKeyDown ArrowUp w) = (0 - 1 + N) mod N"
        by (simp_all add: N_def)
      with last show ?thesis by simp
    qed
    from 1 2 3 show ?thesis unfolding N_def by blast
  qed
  from noop move ends show ?thesis by blast
qed

theorem handleInputKeyDown_arrows_witness:
  "0 < length (navigable (mount (Some ''a'') test_options_disabled))
   \<and> - 1 \<le> highlightedIndex (mount (Some ''a'') test_options_disabled)
   \<and> highlightedIndex (handleInputKeyDown ArrowDown (mount (Some ''a'') test_options_disabled)) = 1
   \<and> highlightedIndex (handleInputKeyDown ArrowUp (mount (Some ''a'') test_options_disabled)) = 1
   \<and> length (navigable (mount (Some ''a'') [])) = 0
   \<and> handleInputKeyDown ArrowDown (mount (Some ''a'') []) = mount (Some ''a'') []"
proof -
  have n: "length (navigable (mount (Some ''a'') test_options_disabled)) = 2"
    by code_simp
  have h: "highlightedIndex (mount (Some ''a'') test_options_disabled) = - 1"
    by code_simp
  have e: "length (navigable (mount (Some ''a'') [])) = 0"
    by code_simp
  from n h handleInputKeyDown_arrows [of "mount (Some ''a'') test_options_disabled"]
  have "handleInputKeyDown ArrowDown (mount (Some ''a'') test_options_disabled) =
          (mount (Some ''a'') test_options_disabled)\<lparr>highlightedIndex := 1\<rparr>"
   and "handleInputKeyDown ArrowUp (mount (Some ''a'') test_options_disabled) =
          (mount (Some ''a'') test_options_disabled)\<lparr>highlightedIndex := 1\<rparr>"
    by simp_all
  moreover from e handleInputKeyDown_arrows [of "mount (Some ''a'') []"]
  have "handleInputKeyDown ArrowDown (mount (Some ''a'') []) = mount (Some ''a'') []"
    by simp
  ultimately show ?thesis using n h e by simp
qed

text \<open>
  The claim as it was stated has either key yield 0 from -1. Here the popover is open, the
  options arrive after the open, the highlight is -1 with three navigable options:
  ArrowDown goes to 1 and ArrowUp to 2.
\<close>

theorem handleInputKeyDown_arrows_counterexample:
  "is_open (run (mount (Some ''a'') []) [OpenChange True, OptionsPropChange test_options])
   \<and> highlightedIndex
        (run (mount (Some ''a'') []) [OpenChange True, OptionsPropChange test_options]) = - 1
   \<and> length (navigable
        (run (mount (Some ''a'') []) [OpenChange True, OptionsPropChange test_options])) = 3
   \<and> highlightedIndex (handleInputKeyDown ArrowDown
        (run (mount (Some ''a'') []) [OpenChange True, OptionsPropChange test_options])) = 1
   \<and> highlightedIndex (handleInputKeyDown ArrowUp
        (run (mount (Some ''a'') []) [OpenChange True, OptionsPropChange test_options])) = 2"
  by code_simp

subsection \<open>The confirm key\<close>

text \<open>
  Claim C3, amended. Enter with \<open>0 \<le> HighlightIndex < |NavigableOptions|\<close> closes the
  widget and calls the callback exactly once, with the value of the highlighted navigable
  option, and changes nothing else; Enter with \<open>HighlightIndex = -1\<close> changes nothing.
\<close>

theorem handleInputKeyDown_Enter:
  "(0 \<le> highlightedIndex w \<and> highlightedIndex w < int (length (navigable w)) \<longrightarrow>
      handleInputKeyDown Enter w =
        w\<lparr>is_open := False,
          onValueChange_calls :=
            onValueChange_calls w @ [opt_value (navigable w ! nat (highlightedIndex w))]\<rparr>)
   \<and> (highlightedIndex w = - 1 \<longrightarrow> handleInputKeyDown Enter w = w)"
  by (auto simp: handleInputKeyDown_def js_index_def handleSelect_def)

theorem handleInputKeyDown_Enter_witness:
  "0 \<le> highlightedIndex (run (mount (Some ''a'') test_options_disabled)
          [OpenChange True, KeyDown ArrowDown])
   \<and> highlightedIndex (run (mount (Some ''a'') test_options_disabled)
          [OpenChange True, KeyDown ArrowDown])
        < int (length (navigable (run (mount (Some ''a'') test_options_disabled)
          [OpenChange True, KeyDown ArrowDown])))
   \<and> is_open (run (mount (Some ''a'') test_options_disabled)
          [OpenChange True, KeyDown ArrowDown])
   \<and> \<not> is_open (handleInputKeyDown Enter (run (mount (Some ''a'') test_options_disabled)
          [OpenChange True, KeyDown ArrowDown]))
   \<and> onValueChange_calls (handleInputKeyDown Enter (run (mount (Some ''a'') test_options_disabled)
          [OpenChange True, KeyDown ArrowDown])) = [''c'']
   \<and> highlightedIndex (mount (Some ''a'') test_options) = - 1
   \<and> handleInputKeyDown Enter (mount (Some ''a'') test_options) = mount (Some ''a'') test_options"
proof -
  let ?w = "run (mount (Some ''a'') test_options_disabled) [OpenChange True, KeyDown ArrowDown]"
  have h: "highlightedIndex ?w = 1" by code_simp
  have n: "length (navigable ?w) = 2" by code_simp
  have o: "is_open ?w" by code_simp
  have c: "onValueChange_calls ?w = []" by code_simp
  have v: "opt_value (navigable ?w ! 1) = ''c''" by code_simp
  have m: "highlightedIndex (mount (Some ''a'') test_options) = - 1" by code_simp
  from h n handleInputKeyDown_Enter [of ?w]
  have "handleInputKeyDown Enter ?w =
          ?w\<lparr>is_open := False,
             onValueChange_calls := onValueChange_calls ?w @ [opt_value (navigable ?w ! 1)]\<rparr>"
    by simp
  then have 1: "\<not> is_open (handleInputKeyDown Enter ?w)"
    and 2: "onValueChange_calls (handleInputKeyDown Enter ?w) = [''c'']"
    using c v by simp_all
  from m handleInputKeyDown_Enter [of "mount (Some ''a'') test_options"]
  have 3: "handleInputKeyDown Enter (mount (Some ''a'') test_options) = mount (Some ''a'') test_options"
    by simp
  from h n o 1 2 m 3 show ?thesis by simp
qed

text \<open>
  The claim as it was stated asks only for \<open>HighlightIndex \<ge> 0\<close>. After opening and typing
  a text that matches no option the highlight is 0 and no option is navigable: Enter
  neither closes the popover nor calls the callback.
\<close>

theorem handleInputKeyDown_Enter_counterexample:
  "0 \<le> highlightedIndex
          (run (mount (Some ''a'') test_options) [OpenChange True, SearchValueChange ''zzz''])
   \<and> is_open (handleInputKeyDown Enter
          (run (mount (Some ''a'') test_options) [OpenChange True, SearchValueChange ''zzz'']))
   \<and> onValueChange_calls (handleInputKeyDown Enter
          (run (mount (Some ''a'') test_options) [OpenChange True, SearchValueChange ''zzz''])) = []"
  by code_simp

text \<open>
  Claim C10. With navigable options and a highlight at or beyond their number, the lookup
  of the highlighted option gives nothing and Enter changes nothing: no call of the
  callback, and the popover stays as it is.
\<close>

theorem handleInputKeyDown_Enter_stale:
  "0 < length (navigable w) \<Longrightarrow> int (length (navigable w)) \<le> highlightedIndex w \<Longrightarrow>
     js_index (navigable w) (highlightedIndex w) = None \<and> handleInputKeyDown Enter w = w"
  by (simp add: handleInputKeyDown_def js_index_def)

theorem handleInputKeyDown_Enter_stale_witness:
  "0 < length (navigable (run (mount (Some ''a'') test_options)
         [OpenChange True, KeyDown ArrowUp, OptionsPropChange [test_options ! 0]]))
   \<and> int (length (navigable (run (mount (Some ''a'') test_options)
         [OpenChange True, KeyDown ArrowUp, OptionsPropChange [test_options ! 0]])))
       \<le> highlightedIndex (run (mount (Some ''a'') test_options)
         [OpenChange True, KeyDown ArrowUp, OptionsPropChange [test_options ! 0]])
   \<and> is_open (handleInputKeyDown Enter (run (mount (Some ''a'') test_options)
         [OpenChange True, KeyDown ArrowUp, OptionsPropChange [test_options ! 0]]))
   \<and> onValueChange_calls (handleInputKeyDown Enter (run (mount (Some ''a'') test_options)
         [OpenChange True, KeyDown ArrowUp, OptionsPropChange [test_options ! 0]])) = []"
proof -
  let ?w = "run (mount (Some ''a'') test_options)
         [OpenChange True, KeyDown ArrowUp, OptionsPropChange [test_options ! 0]]"
  have n: "length (navigable ?w) = 1" by code_simp
  have h: "highlightedIndex ?w = 2" by code_simp
  have o: "is_open ?w" by code_simp
  have c: "onValueChange_calls ?w = []" by code_simp
  have "handleInputKeyDown Enter ?w = ?w"
    using handleInputKeyDown_Enter_stale [of ?w] n h by simp
  with n h o c show ?thesis by simp
qed

subsection \<open>Search text\<close>

text \<open>
  Claim C7, amended. Every change of the search text that the search input reports (the
  handler \<^verbatim>\<open>handleSearchValueChange\<close>) stores the text and sets the highlight to 0,
  whatever the highlight was, whether or not an option is navigable afterwards, and
  without the rule of the selected value.
\<close>

theorem handleSearchValueChange_resets:
  "isMountedRef w \<Longrightarrow>
     highlightedIndex (step w (SearchValueChange s)) = 0
     \<and> searchValue (step w (SearchValueChange s)) = s"
  by (simp add: handleSearchValueChange_def)

theorem handleSearchValueChange_resets_witness:
  "isMountedRef (run (mount (Some ''b'') test_options) [OpenChange True, KeyDown ArrowDown])
   \<and> highlightedIndex (run (mount (Some ''b'') test_options) [OpenChange True, KeyDown ArrowDown]) = 2
   \<and> highlightedIndex (step (run (mount (Some ''b'') test_options) [OpenChange True, KeyDown ArrowDown])
         (SearchValueChange ''a'')) = 0
   \<and> getDefaultHighlightedIndex (step (run (mount (Some ''b'') test_options)
         [OpenChange True, KeyDown ArrowDown]) (SearchValueChange ''a'')) = 1
   \<and> highlightedIndex (step (run (mount (Some ''b'') test_options) [OpenChange True, KeyDown ArrowDown])
         (SearchValueChange ''zzz'')) = 0
   \<and> navigable (step (run (mount (Some ''b'') test_options) [OpenChange True, KeyDown ArrowDown])
         (SearchValueChange ''zzz'')) = []"
proof -
  let ?w = "run (mount (Some ''b'') test_options) [OpenChange True, KeyDown ArrowDown]"
  have m: "isMountedRef ?w" by code_simp
  have h: "highlightedIndex ?w = 2" by code_simp
  have d: "getDefaultHighlightedIndex (step ?w (SearchValueChange ''a'')) = 1" by code_simp
  have e: "navigable (step ?w (SearchValueChange ''zzz'')) = []" by code_simp
  from handleSearchValueChange_resets [OF m, of "''a''"]
    handleSearchValueChange_resets [OF m, of "''zzz''"] m h d e
  show ?thesis by simp
qed

text \<open>
  The claim as it was stated speaks of every change of the search text while the popover
  is open. A click on the clear icon empties the search text of an open popover and leaves
  the highlight, here 1, where it is.
\<close>

theorem search_text_change_counterexample:
  "is_open (run (mount (Some ''a'') test_options)
        [OpenChange True, SearchValueChange ''a'', KeyDown ArrowDown])
   \<and> searchValue (run (mount (Some ''a'') test_options)
        [OpenChange True, SearchValueChange ''a'', KeyDown ArrowDown]) = ''a''
   \<and> is_open (run (mount (Some ''a'') test_options)
        [OpenChange True, SearchValueChange ''a'', KeyDown ArrowDown, ClearSearchClick])
   \<and> searchValue (run (mount (Some ''a'') test_options)
        [OpenChange True, SearchValueChange ''a'', KeyDown ArrowDown, ClearSearchClick]) = ''''
   \<and> highlightedIndex (run (mount (Some ''a'') test_options)
        [OpenChange True, SearchValueChange ''a'', KeyDown ArrowDown, ClearSearchClick]) = 1"
  by code_simp

subsection \<open>Clicks on rows\<close>

text \<open>
  Claim C8, amended. A click on the row of an enabled visible option closes the widget and
  reports the value of that option. A click on the row of a disabled option is kept away
  by the \<^verbatim>\<open>disabled\<close> wiring of the toolkit alone: the handler \<^verbatim>\<open>onSelect\<close> of a row
  has no guard of its own and commits the option of its row, disabled or not.
\<close>

theorem row_click_commits:
  "i < length (visible w) \<Longrightarrow>
     (\<not> is_disabled (visible w ! i) \<longrightarrow>
        CommandItem_click i w =
          w\<lparr>is_open := False,
            onValueChange_calls := onValueChange_calls w @ [opt_value (visible w ! i)]\<rparr>)
     \<and> (is_disabled (visible w ! i) \<longrightarrow> CommandItem_click i w = w)
     \<and> row_onSelect i w =
          w\<lparr>is_open := False,
            onValueChange_calls := onValueChange_calls w @ [opt_value (visible w ! i)]\<rparr>"
  by (simp add: CommandItem_click_def row_onSelect_def handleSelect_def)

theorem row_click_commits_witness:
  "(2::nat) < length (visible (handleOpenChange True (mount (Some ''a'') test_options_disabled)))
   \<and> \<not> is_disabled (visible (handleOpenChange True (mount (Some ''a'') test_options_disabled)) ! 2)
   \<and> onValueChange_calls (CommandItem_click 2
         (handleOpenChange True (mount (Some ''a'') test_options_disabled))) = [''c'']
   \<and> \<not> is_open (CommandItem_click 2
         (handleOpenChange True (mount (Some ''a'') test_options_disabled)))
   \<and> is_disabled (visible (handleOpenChange True (mount (Some ''a'') test_options_disabled)) ! 1)
   \<and> CommandItem_click 1 (handleOpenChange True (mount (Some ''a'') test_options_disabled))
       = handleOpenChange True (mount (Some ''a'') test_options_disabled)"
proof -
  let ?w = "handleOpenChange True (mount (Some ''a'') test_options_disabled)"
  have l: "length (visible ?w) = 3" by code_simp
  have e: "\<not> is_disabled (visible ?w ! 2)" by code_simp
  have d: "is_disabled (visible ?w ! 1)" by code_simp
  have v: "opt_value (visible ?w ! 2) = ''c''" by code_simp
  have c: "onValueChange_calls ?w = []" by code_simp
  have "(2::nat) < length (visible ?w)" using l by simp
  from row_click_commits [OF this] e
  have "CommandItem_click 2 ?w =
          ?w\<lparr>is_open := False,
            onValueChange_calls := onValueChange_calls ?w @ [opt_value (visible ?w ! 2)]\<rparr>"
    by blast
  then have 1: "onValueChange_calls (CommandItem_click 2 ?w) = [''c'']"
    and 2: "\<not> is_open (CommandItem_click 2 ?w)"
    using v c by simp_all
  have "(1::nat) < length (visible ?w)" using l by simp
  from row_click_commits [OF this] d
  have 3: "CommandItem_click 1 ?w = ?w" by blast
  from l e d 1 2 3 show ?thesis by simp
qed

text \<open>
  The claim as it was stated has the click on a disabled option inert even when the wiring
  of the toolkit is bypassed. Calling \<^verbatim>\<open>onSelect\<close> of the disabled row \<open>b\<close> closes the
  popover and reports \<open>b\<close>.
\<close>

theorem row_onSelect_disabled_counterexample:
  "is_disabled (visible (handleOpenChange True (mount (Some ''a'') test_options_disabled)) ! 1)
   \<and> is_open (handleOpenChange True (mount (Some ''a'') test_options_disabled))
   \<and> \<not> is_open (row_onSelect 1 (handleOpenChange True (mount (Some ''a'') test_options_disabled)))
   \<and> onValueChange_calls
        (row_onSelect 1 (handleOpenChange True (mount (Some ''a'') test_options_disabled))) = [''b'']"
  by code_simp

subsection \<open>Reachable states: the range of the highlight\<close>

lemma run_snoc: "run w (es @ [e]) = step (run w es) e"
  by (simp add: run_def)

lemma run_Cons: "run w (e # es) = run (step w e) es"
  by (simp add: run_def)

lemma length_filter_conj_le: "length (filter (\<lambda>x. Q x \<and> P x) xs) \<le> length (filter P xs)"
  by (induction xs) auto

lemma length_navigable_searchValue_nil:
  "length (navigable w) \<le> length (navigable (w\<lparr>searchValue := []\<rparr>))"
  by (simp add: navigable_def visible_def filteredOptions_def filteredOptionsWith_def
      enabledFilteredOptions_def
      length_filter_conj_le)

lemma getDefaultHighlightedIndex_bounds:
  "- 1 \<le> getDefaultHighlightedIndex w"
  "getDefaultHighlightedIndex w = - 1 \<or> getDefaultHighlightedIndex w < int (length (navigable w))"
proof -
  let ?i = "findIndex (\<lambda>option. Some (opt_value option) = value_prop w) (navigable w)"
  have ge: "- 1 \<le> ?i" by (rule findIndex_ge)
  have lt: "?i < int (length (navigable w))" by (rule findIndex_lt)
  from ge show "- 1 \<le> getDefaultHighlightedIndex w"
    by (simp add: getDefaultHighlightedIndex_def Let_def)
  from lt show "getDefaultHighlightedIndex w = - 1
      \<or> getDefaultHighlightedIndex w < int (length (navigable w))"
    by (auto simp: getDefaultHighlightedIndex_def Let_def)
qed

lemma handleOpenChange_fields:
  "highlightedIndex (handleOpenChange opn w) = (if opn then getDefaultHighlightedIndex w else - 1)"
  "navigable (handleOpenChange opn w) = navigable w"
  by (simp_all add: handleOpenChange_def setTimeout_def clearTimeout_def navigable_def
      visible_def Let_def split: option.split)

lemma handleInputKeyDown_navigable:
  "navigable (handleInputKeyDown k w) = navigable w"
  by (simp add: handleInputKeyDown_def handleSelect_def navigable_def visible_def Let_def
      split: option.split)

lemma handleInputKeyDown_highlightedIndex:
  assumes "- 1 \<le> highlightedIndex w"
  shows "highlightedIndex (handleInputKeyDown k w) = highlightedIndex w
     \<or> (0 \<le> highlightedIndex (handleInputKeyDown k w)
        \<and> highlightedIndex (handleInputKeyDown k w) < int (length (navigable w)))"
proof (cases "length (navigable w) = 0 \<or> (k \<noteq> ArrowDown \<and> k \<noteq> ArrowUp)")
  case True
  then show ?thesis
    by (auto simp: handleInputKeyDown_def handleSelect_def split: option.split)
next
  case False
  define n where "n = int (length (navigable w))"
  define s where "s = (if highlightedIndex w = - 1 then 0 else highlightedIndex w)"
  define d :: int where "d = (if k = ArrowDown then 1 else - 1)"
  from False have npos: "0 < n" by (simp add: n_def)
  from assms have spos: "0 \<le> s" by (simp add: s_def)
  have "0 \<le> s + d + n" using npos spos by (simp add: d_def)
  then have r: "js_rem (s + d + n) n = (s + d + n) mod n"
    using npos by (simp add: js_rem_nonneg)
  have "0 \<le> (s + d + n) mod n" "(s + d + n) mod n < n"
    using npos by simp_all
  with r have "0 \<le> js_rem (s + d + n) n \<and> js_rem (s + d + n) n < n" by simp
  moreover from False have "highlightedIndex (handleInputKeyDown k w) = js_rem (s + d + n) n"
    by (simp add: handleInputKeyDown_def Let_def n_def s_def d_def)
  ultimately show ?thesis by (simp add: n_def)
qed

lemma row_onMouseEnter_fields:
  "navigable (row_onMouseEnter i w) = navigable w"
  "highlightedIndex (row_onMouseEnter i w) = highlightedIndex w
     \<or> (- 1 \<le> highlightedIndex (row_onMouseEnter i w)
        \<and> highlightedIndex (row_onMouseEnter i w) < int (length (navigable w)))"
proof -
  show "navigable (row_onMouseEnter i w) = navigable w"
    by (simp add: row_onMouseEnter_def Let_def navigable_def visible_def)
  let ?j = "findIndex (\<lambda>enabledOption. opt_value enabledOption = opt_value (visible w ! i))
              (navigable w)"
  have "- 1 \<le> ?j" "?j < int (length (navigable w))"
    by (rule findIndex_ge, rule findIndex_lt)
  then show "highlightedIndex (row_onMouseEnter i w) = highlightedIndex w
     \<or> (- 1 \<le> highlightedIndex (row_onMouseEnter i w)
        \<and> highlightedIndex (row_onMouseEnter i w) < int (length (navigable w)))"
    by (simp add: row_onMouseEnter_def Let_def)
qed

lemma timerFires_fields:
  "highlightedIndex (timerFires tid w) = highlightedIndex w"
  "length (navigable w) \<le> length (navigable (timerFires tid w))"
proof -
  show "highlightedIndex (timerFires tid w) = highlightedIndex w"
    by (cases "find (\<lambda>t. fst t = tid) (timers w)"; cases "snd (the (find (\<lambda>t. fst t = tid) (timers w)))")
       (simp_all add: timerFires_def clearTimeout_def)
  have c: "navigable (clearTimeout tid w) = navigable w"
    by (simp add: clearTimeout_def navigable_def visible_def)
  have s: "searchValue (clearTimeout tid w) = searchValue w"
    by (simp add: clearTimeout_def)
  have r: "length (navigable u) \<le> length (navigable (run_callback cb u))" for cb u
    using length_navigable_searchValue_nil [of u] by (cases cb) simp_all
  show "length (navigable w) \<le> length (navigable (timerFires tid w))"
  proof (cases "find (\<lambda>t. fst t = tid) (timers w)")
    case None
    then show ?thesis by (simp add: timerFires_def)
  next
    case (Some t)
    with r [of "clearTimeout tid w" "snd t"] c show ?thesis by (simp add: timerFires_def)
  qed
qed

lemma step_summary:
  assumes "- 1 \<le> highlightedIndex w"
  shows "(highlightedIndex (step w e) = highlightedIndex w
          \<and> (\<not> changes_options e \<longrightarrow> length (navigable w) \<le> length (navigable (step w e))))
       \<or> (- 1 \<le> highlightedIndex (step w e)
          \<and> highlightedIndex (step w e) < int (length (navigable (step w e))))
       \<or> highlightedIndex (step w e) = 0"
proof (cases "isMountedRef w \<or> (\<exists>tid. e = TimerFires tid)")
  case False
  then show ?thesis by (cases e) simp_all
next
  case True
  show ?thesis
  proof (cases e)
    case (OpenChange opn)
    with True getDefaultHighlightedIndex_bounds [of w] show ?thesis
      by (auto simp: handleOpenChange_fields)
  next
    case EscapeKey
    with True show ?thesis by (simp add: escapeKey_def navigable_def visible_def)
  next
    case (SearchValueChange s)
    with True show ?thesis by (simp add: handleSearchValueChange_def)
  next
    case ClearSearchClick
    with True length_navigable_searchValue_nil [of w] show ?thesis
      by (simp add: handleClearSearch_def)
  next
    case (KeyDown k)
    with True handleInputKeyDown_highlightedIndex [OF assms, of k] show ?thesis
      by (auto simp: handleInputKeyDown_navigable)
  next
    case (ItemClick i)
    with True show ?thesis
      by (simp add: CommandItem_click_def row_onSelect_def handleSelect_def navigable_def visible_def)
  next
    case (ItemMouseEnter i)
    with True row_onMouseEnter_fields [where i = i and w = w] show ?thesis by auto
  next
    case (ValuePropChange v)
    with True show ?thesis
      by (simp add: valuePropChange_def valueEffect_run_def valueEffect_cleanup_def
          setTimeout_def clearTimeout_def navigable_def visible_def)
  next
    case (OptionsPropChange opts)
    with True show ?thesis by (simp add: optionsPropChange_def)
  next
    case (TimerFires tid)
    with timerFires_fields [where tid = tid and w = w] show ?thesis by simp
  next
    case Unmount
    with True show ?thesis
      by (simp add: unmount_def unmountEffect_cleanup_def valueEffect_cleanup_def
          clearTimeout_def navigable_def visible_def Let_def split: option.split)
  qed
qed

lemma run_highlightedIndex_ge: "- 1 \<le> highlightedIndex (run (mount v opts) es)"
proof (induction es rule: rev_induct)
  case Nil
  show ?case by (simp add: run_def mount_def valueEffect_run_def setTimeout_def)
next
  case (snoc e es)
  from step_summary [OF snoc.IH, of e] snoc.IH show ?case
    by (auto simp: run_snoc)
qed

lemma run_highlightedIndex_le:
  "\<forall>e\<in>set es. \<not> changes_options e \<Longrightarrow>
   highlightedIndex (run (mount v opts) es)
     \<le> max 0 (int (length (navigable (run (mount v opts) es))) - 1)"
proof (induction es rule: rev_induct)
  case Nil
  show ?case by (simp add: run_def mount_def valueEffect_run_def setTimeout_def)
next
  case (snoc e es)
  let ?w = "run (mount v opts) es"
  from snoc have ih: "highlightedIndex ?w \<le> max 0 (int (length (navigable ?w)) - 1)"
    and e: "\<not> changes_options e" by simp_all
  have ge: "- 1 \<le> highlightedIndex ?w" by (rule run_highlightedIndex_ge)
  from step_summary [OF ge, of e] e ih show ?case
    by (auto simp: run_snoc)
qed

lemma navigable_nth:
  "i < length (navigable w) \<Longrightarrow>
     navigable w ! i \<in> set (visible w) \<and> \<not> is_disabled (navigable w ! i)"
proof -
  assume "i < length (navigable w)"
  then have "navigable w ! i \<in> set (navigable w)" by (rule nth_mem)
  then show ?thesis by (simp add: navigable_def enabledFilteredOptions_def)
qed

text \<open>
  Claim C4, amended. In every state that a sequence of events reaches from the mounted
  component the highlight is an integer of at least -1; as long as no event has replaced
  the options it is at most \<open>max 0 (|NavigableOptions| - 1)\<close>; and whenever it lies in
  \<open>[0, |NavigableOptions| - 1]\<close> it is the index of a visible option that is not disabled.
\<close>

theorem highlightedIndex_reachable:
  "w = run (mount v opts) es \<Longrightarrow>
     - 1 \<le> highlightedIndex w
     \<and> ((\<forall>e\<in>set es. \<not> changes_options e) \<longrightarrow>
          highlightedIndex w \<le> max 0 (int (length (navigable w)) - 1))
     \<and> (0 \<le> highlightedIndex w \<and> highlightedIndex w < int (length (navigable w)) \<longrightarrow>
          navigable w ! nat (highlightedIndex w) \<in> set (visible w)
          \<and> \<not> is_disabled (navigable w ! nat (highlightedIndex w)))"
proof -
  assume w: "w = run (mount v opts) es"
  have a: "- 1 \<le> highlightedIndex w"
    unfolding w by (rule run_highlightedIndex_ge)
  have b: "(\<forall>e\<in>set es. \<not> changes_options e) \<longrightarrow>
          highlightedIndex w \<le> max 0 (int (length (navigable w)) - 1)"
    unfolding w using run_highlightedIndex_le by blast
  have c: "0 \<le> highlightedIndex w \<and> highlightedIndex w < int (length (navigable w)) \<longrightarrow>
          navigable w ! nat (highlightedIndex w) \<in> set (visible w)
          \<and> \<not> is_disabled (navigable w ! nat (highlightedIndex w))"
  proof
    assume "0 \<le> highlightedIndex w \<and> highlightedIndex w < int (length (navigable w))"
    then have "nat (highlightedIndex w) < length (navigable w)" by arith
    then show "navigable w ! nat (highlightedIndex w) \<in> set (visible w)
          \<and> \<not> is_disabled (navigable w ! nat (highlightedIndex w))"
      by (rule navigable_nth)
  qed
  from a b c show ?thesis by blast
qed

theorem highlightedIndex_reachable_witness:
  "\<not> changes_options (OpenChange True) \<and> \<not> changes_options (KeyDown ArrowDown)
   \<and> highlightedIndex (run (mount (Some ''a'') test_options_disabled)
         [OpenChange True, KeyDown ArrowDown]) = 1
   \<and> length (navigable (run (mount (Some ''a'') test_options_disabled)
         [OpenChange True, KeyDown ArrowDown])) = 2
   \<and> navigable (run (mount (Some ''a'') test_options_disabled)
         [OpenChange True, KeyDown ArrowDown]) ! 1
       \<in> set (visible (run (mount (Some ''a'') test_options_disabled)
         [OpenChange True, KeyDown ArrowDown]))
   \<and> \<not> is_disabled (navigable (run (mount (Some ''a'') test_options_disabled)
         [OpenChange True, KeyDown ArrowDown]) ! 1)"
proof -
  let ?es = "[OpenChange True, KeyDown ArrowDown]"
  let ?w = "run (mount (Some ''a'') test_options_disabled) ?es"
  have h: "highlightedIndex ?w = 1" by code_simp
  have n: "length (navigable ?w) = 2" by code_simp
  have c: "\<forall>e\<in>set ?es. \<not> changes_options e" by simp
  from highlightedIndex_reachable [of ?w "Some ''a''" test_options_disabled ?es] h n c
  have "highlightedIndex ?w \<le> max 0 (int (length (navigable ?w)) - 1)
      \<and> navigable ?w ! 1 \<in> set (visible ?w) \<and> \<not> is_disabled (navigable ?w ! 1)"
    by simp
  with h n show ?thesis by simp
qed

text \<open>
  The claim as it was stated keeps the highlight within \<open>[-1, |NavigableOptions| - 1]\<close> and
  allows -1 only without navigable options. After opening and typing a text that matches
  nothing the highlight is 0 and no option is navigable; after opening and closing the
  highlight is -1 with three navigable options.
\<close>

theorem highlightedIndex_range_counterexample:
  "is_open (run (mount (Some ''a'') test_options) [OpenChange True, SearchValueChange ''zzz''])
   \<and> highlightedIndex
        (run (mount (Some ''a'') test_options) [OpenChange True, SearchValueChange ''zzz'']) = 0
   \<and> length (navigable
        (run (mount (Some ''a'') test_options) [OpenChange True, SearchValueChange ''zzz''])) = 0
   \<and> highlightedIndex
        (run (mount (Some ''a'') test_options) [OpenChange True, OpenChange False]) = - 1
   \<and> length (navigable
        (run (mount (Some ''a'') test_options) [OpenChange True, OpenChange False])) = 3"
  by code_simp

subsection \<open>The deferred reset of the search text\<close>

lemma timers_inv_fresh: "timers_inv w \<Longrightarrow> nextTimerId w \<notin> fst ` set (timers w)"
  by (auto simp: timers_inv_def)

lemma timers_inv_mount: "timers_inv (mount v opts)"
  by (simp add: timers_inv_def mount_def valueEffect_run_def setTimeout_def)

lemma timers_inv_handleOpenChange:
  "timers_inv w \<Longrightarrow> isMountedRef w \<Longrightarrow> timers_inv (handleOpenChange opn w)"
proof -
  assume inv: "timers_inv w" and m: "isMountedRef w"
  note fresh = timers_inv_fresh [OF inv]
  show ?thesis
  proof (cases opn)
    case True
    with inv show ?thesis by (simp add: timers_inv_def handleOpenChange_def)
  next
    case False
    with inv m fresh show ?thesis
      by (cases "searchResetTimeoutRef w")
         (auto simp: timers_inv_def handleOpenChange_def setTimeout_def clearTimeout_def
            Let_def distinct_map_filter less_Suc_eq)
  qed
qed

lemma timers_inv_valuePropChange:
  "timers_inv w \<Longrightarrow> isMountedRef w \<Longrightarrow> timers_inv (valuePropChange v w)"
proof -
  assume inv: "timers_inv w" and m: "isMountedRef w"
  note fresh = timers_inv_fresh [OF inv]
  from inv m fresh show ?thesis
    by (auto simp: timers_inv_def valuePropChange_def valueEffect_run_def
          valueEffect_cleanup_def setTimeout_def clearTimeout_def distinct_map_filter
          less_Suc_eq)
qed

lemma timers_unmount: "timers_inv w \<Longrightarrow> timers (unmount w) = []"
proof -
  assume inv: "timers_inv w"
  have "fst t = valueEffectTimeoutId w \<or> searchResetTimeoutRef w = Some (fst t)"
    if "t \<in> set (timers w)" for t
    using inv that by (cases "snd t") (auto simp: timers_inv_def)
  then show ?thesis
    by (cases "searchResetTimeoutRef w")
       (auto simp: unmount_def unmountEffect_cleanup_def valueEffect_cleanup_def
          clearTimeout_def Let_def filter_empty_conv)
qed

lemma isMountedRef_unmount: "\<not> isMountedRef (unmount w)"
  by (cases "searchResetTimeoutRef w")
     (simp_all add: unmount_def unmountEffect_cleanup_def valueEffect_cleanup_def
        clearTimeout_def Let_def)

lemma timers_inv_unmount: "timers_inv w \<Longrightarrow> timers_inv (unmount w)"
proof -
  assume inv: "timers_inv w"
  have t: "timers (unmount w) = []" using inv by (rule timers_unmount)
  have f: "searchResetTimeoutRef (unmount w) = searchResetTimeoutRef w"
    "valueEffectTimeoutId (unmount w) = valueEffectTimeoutId w"
    "nextTimerId (unmount w) = nextTimerId w"
    by (cases "searchResetTimeoutRef w";
        simp add: unmount_def unmountEffect_cleanup_def valueEffect_cleanup_def
          clearTimeout_def Let_def)+
  from inv t f show ?thesis by (simp add: timers_inv_def)
qed

lemma timers_inv_timerFires: "timers_inv w \<Longrightarrow> timers_inv (timerFires tid w)"
proof -
  assume inv: "timers_inv w"
  have c: "timers_inv (clearTimeout tid w)"
    using inv by (auto simp: timers_inv_def clearTimeout_def distinct_map_filter filter_empty_conv)
  have r: "timers_inv (run_callback cb u)" if "timers_inv u" for cb u
    using that by (cases cb) (simp_all add: timers_inv_def)
  show ?thesis
    by (cases "find (\<lambda>t. fst t = tid) (timers w)") (simp_all add: timerFires_def inv c r)
qed

lemma timers_inv_step: "timers_inv w \<Longrightarrow> timers_inv (step w e)"
proof (cases "isMountedRef w \<or> (\<exists>tid. e = TimerFires tid)")
  case False
  assume "timers_inv w"
  with False show ?thesis by (cases e) simp_all
next
  case True
  assume inv: "timers_inv w"
  show ?thesis
  proof (cases e)
    case (OpenChange opn)
    with True inv show ?thesis by (simp add: timers_inv_handleOpenChange)
  next
    case EscapeKey
    with True inv show ?thesis by (simp add: escapeKey_def timers_inv_def)
  next
    case (SearchValueChange s)
    with True inv show ?thesis by (simp add: handleSearchValueChange_def timers_inv_def)
  next
    case ClearSearchClick
    with True inv show ?thesis by (simp add: handleClearSearch_def timers_inv_def)
  next
    case (KeyDown k)
    with True inv show ?thesis
      by (simp add: handleInputKeyDown_def handleSelect_def timers_inv_def Let_def
          split: option.split)
  next
    case (ItemClick i)
    with True inv show ?thesis
      by (simp add: CommandItem_click_def row_onSelect_def handleSelect_def timers_inv_def)
  next
    case (ItemMouseEnter i)
    with True inv show ?thesis by (simp add: row_onMouseEnter_def timers_inv_def Let_def)
  next
    case (ValuePropChange v)
    with True inv show ?thesis by (simp add: timers_inv_valuePropChange)
  next
    case (OptionsPropChange opts)
    with True inv show ?thesis by (simp add: optionsPropChange_def timers_inv_def)
  next
    case (TimerFires tid)
    with inv show ?thesis by (simp add: timers_inv_timerFires)
  next
    case Unmount
    with True inv show ?thesis by (simp add: timers_inv_unmount)
  qed
qed

lemma timers_inv_run: "timers_inv (run (mount v opts) es)"
  by (induction es rule: rev_induct) (simp_all add: run_def timers_inv_mount timers_inv_step)

lemma step_unmounted: "timers_inv w \<Longrightarrow> \<not> isMountedRef w \<Longrightarrow> step w e = w"
  by (cases e) (simp_all add: timers_inv_def timerFires_def)

lemma run_unmounted: "timers_inv w \<Longrightarrow> \<not> isMountedRef w \<Longrightarrow> run w es = w"
  by (induction es) (simp_all add: run_Cons step_unmounted run_def)

lemma step_Unmount_unmounted: "\<not> isMountedRef (step w Unmount)"
  by (simp add: isMountedRef_unmount)

lemma timers_step_OpenChange_True: "timers (step w (OpenChange True)) = timers w"
  by (simp add: handleOpenChange_def)

lemma filter_conj_drop:
  "\<forall>x\<in>set xs. Q x \<longrightarrow> P x \<Longrightarrow> filter (\<lambda>x. P x \<and> Q x) xs = filter Q xs"
  by (induction xs) auto

lemma filter_conj_none:
  "\<forall>x\<in>set xs. Q x \<longrightarrow> \<not> P x \<Longrightarrow> filter (\<lambda>x. P x \<and> Q x) xs = []"
  by (induction xs) auto

lemma timers_inv_CloseReset:
  "timers_inv w \<Longrightarrow> t \<in> set (timers w) \<Longrightarrow> snd t = CloseReset \<Longrightarrow>
     searchResetTimeoutRef w = Some (fst t)"
  by (simp add: timers_inv_def)

lemma timers_inv_ValueReset:
  "timers_inv w \<Longrightarrow> t \<in> set (timers w) \<Longrightarrow> snd t = ValueReset \<Longrightarrow>
     valueEffectTimeoutId w = fst t"
  by (simp add: timers_inv_def)

lemma timers_inv_ref_neq:
  "timers_inv w \<Longrightarrow> searchResetTimeoutRef w = Some tid \<Longrightarrow> tid \<noteq> valueEffectTimeoutId w"
  by (simp add: timers_inv_def)

lemma close_filters:
  assumes inv: "timers_inv w" and m: "isMountedRef w"
  shows "filter (\<lambda>t. snd t = CloseReset) (timers (step w (OpenChange False)))
           = [(nextTimerId w, CloseReset)]"
    and "filter (\<lambda>t. snd t = ValueReset) (timers (step w (OpenChange False)))
           = filter (\<lambda>t. snd t = ValueReset) (timers w)"
proof -
  show "filter (\<lambda>t. snd t = CloseReset) (timers (step w (OpenChange False)))
           = [(nextTimerId w, CloseReset)]"
  proof (cases "searchResetTimeoutRef w")
    case None
    have "\<forall>t\<in>set (timers w). snd t \<noteq> CloseReset"
    proof
      fix t assume "t \<in> set (timers w)"
      with inv None show "snd t \<noteq> CloseReset"
        by (metis timers_inv_CloseReset option.distinct(1))
    qed
    then have "filter (\<lambda>t. snd t = CloseReset) (timers w) = []"
      by (simp add: filter_empty_conv)
    with m None show ?thesis
      by (simp add: handleOpenChange_def setTimeout_def Let_def)
  next
    case (Some tid)
    have "\<forall>t\<in>set (timers w). snd t = CloseReset \<longrightarrow> \<not> fst t \<noteq> tid"
    proof (intro ballI impI)
      fix t assume "t \<in> set (timers w)" "snd t = CloseReset"
      with inv have "searchResetTimeoutRef w = Some (fst t)" by (rule timers_inv_CloseReset)
      with Some show "\<not> fst t \<noteq> tid" by simp
    qed
    then have "filter (\<lambda>t. fst t \<noteq> tid \<and> snd t = CloseReset) (timers w) = []"
      by (rule filter_conj_none)
    with m Some show ?thesis
      by (simp add: handleOpenChange_def setTimeout_def clearTimeout_def Let_def)
  qed
  show "filter (\<lambda>t. snd t = ValueReset) (timers (step w (OpenChange False)))
           = filter (\<lambda>t. snd t = ValueReset) (timers w)"
  proof (cases "searchResetTimeoutRef w")
    case None
    with m show ?thesis
      by (simp add: handleOpenChange_def setTimeout_def Let_def)
  next
    case (Some tid)
    have "\<forall>t\<in>set (timers w). snd t = ValueReset \<longrightarrow> fst t \<noteq> tid"
    proof (intro ballI impI)
      fix t assume "t \<in> set (timers w)" "snd t = ValueReset"
      with inv have "valueEffectTimeoutId w = fst t" by (rule timers_inv_ValueReset)
      moreover from inv Some have "tid \<noteq> valueEffectTimeoutId w" by (rule timers_inv_ref_neq)
      ultimately show "fst t \<noteq> tid" by simp
    qed
    then have "filter (\<lambda>t. fst t \<noteq> tid \<and> snd t = ValueReset) (timers w)
                 = filter (\<lambda>t. snd t = ValueReset) (timers w)"
      by (rule filter_conj_drop)
    with m Some show ?thesis
      by (simp add: handleOpenChange_def setTimeout_def clearTimeout_def Let_def)
  qed
qed

lemma value_filters:
  assumes inv: "timers_inv w" and m: "isMountedRef w" and v: "v' \<noteq> value_prop w"
  shows "filter (\<lambda>t. snd t = ValueReset) (timers (step w (ValuePropChange v')))
           = [(nextTimerId w, ValueReset)]"
    and "filter (\<lambda>t. snd t = CloseReset) (timers (step w (ValuePropChange v')))
           = filter (\<lambda>t. snd t = CloseReset) (timers w)"
proof -
  have "\<forall>t\<in>set (timers w). snd t = ValueReset \<longrightarrow> \<not> fst t \<noteq> valueEffectTimeoutId w"
  proof (intro ballI impI)
    fix t assume "t \<in> set (timers w)" "snd t = ValueReset"
    with inv have "valueEffectTimeoutId w = fst t" by (rule timers_inv_ValueReset)
    then show "\<not> fst t \<noteq> valueEffectTimeoutId w" by simp
  qed
  then have one:
    "filter (\<lambda>t. fst t \<noteq> valueEffectTimeoutId w \<and> snd t = ValueReset) (timers w) = []"
    by (rule filter_conj_none)
  have "\<forall>t\<in>set (timers w). snd t = CloseReset \<longrightarrow> fst t \<noteq> valueEffectTimeoutId w"
  proof (intro ballI impI)
    fix t assume "t \<in> set (timers w)" "snd t = CloseReset"
    with inv have "searchResetTimeoutRef w = Some (fst t)" by (rule timers_inv_CloseReset)
    with inv show "fst t \<noteq> valueEffectTimeoutId w" by (rule timers_inv_ref_neq)
  qed
  then have keep:
    "filter (\<lambda>t. fst t \<noteq> valueEffectTimeoutId w \<and> snd t = CloseReset) (timers w)
       = filter (\<lambda>t. snd t = CloseReset) (timers w)"
    by (rule filter_conj_drop)
  show "filter (\<lambda>t. snd t = ValueReset) (timers (step w (ValuePropChange v')))
           = [(nextTimerId w, ValueReset)]"
    using m v one
    by (simp add: valuePropChange_def valueEffect_run_def valueEffect_cleanup_def
          setTimeout_def clearTimeout_def)
  show "filter (\<lambda>t. snd t = CloseReset) (timers (step w (ValuePropChange v')))
           = filter (\<lambda>t. snd t = CloseReset) (timers w)"
    using m v keep
    by (simp add: valuePropChange_def valueEffect_run_def valueEffect_cleanup_def
          setTimeout_def clearTimeout_def)
qed

text \<open>
  Claim C9, amended. In every reachable state: teardown leaves no timer pending and no
  later event changes anything, so no reset fires after teardown; a close cancels the
  pending reset of an earlier close and schedules a new one, leaving the reset of the
  effect on \<^verbatim>\<open>value\<close> alone; a change of \<^verbatim>\<open>value\<close> cancels the pending reset of the
  earlier run of the effect and schedules a new one, leaving the reset of a close alone;
  an open cancels nothing.
\<close>

theorem search_reset_timers:
  "w = run (mount v opts) es \<Longrightarrow>
     timers (step w Unmount) = []
     \<and> run (step w Unmount) es' = step w Unmount
     \<and> (isMountedRef w \<longrightarrow>
          filter (\<lambda>t. snd t = CloseReset) (timers (step w (OpenChange False)))
            = [(nextTimerId w, CloseReset)]
          \<and> filter (\<lambda>t. snd t = ValueReset) (timers (step w (OpenChange False)))
            = filter (\<lambda>t. snd t = ValueReset) (timers w))
     \<and> (isMountedRef w \<and> v' \<noteq> value_prop w \<longrightarrow>
          filter (\<lambda>t. snd t = ValueReset) (timers (step w (ValuePropChange v')))
            = [(nextTimerId w, ValueReset)]
          \<and> filter (\<lambda>t. snd t = CloseReset) (timers (step w (ValuePropChange v')))
            = filter (\<lambda>t. snd t = CloseReset) (timers w))
     \<and> timers (step w (OpenChange True)) = timers w"
proof -
  assume w: "w = run (mount v opts) es"
  have inv: "timers_inv w"
    unfolding w by (rule timers_inv_run)
  have inv': "timers_inv (step w Unmount)"
    using inv by (rule timers_inv_step)
  have dead: "\<not> isMountedRef (step w Unmount)"
    by (rule step_Unmount_unmounted)
  from inv' dead have a: "timers (step w Unmount) = []"
    by (simp add: timers_inv_def)
  from inv' dead have b: "run (step w Unmount) es' = step w Unmount"
    by (rule run_unmounted)
  have c: "isMountedRef w \<longrightarrow>
          filter (\<lambda>t. snd t = CloseReset) (timers (step w (OpenChange False)))
            = [(nextTimerId w, CloseReset)]
          \<and> filter (\<lambda>t. snd t = ValueReset) (timers (step w (OpenChange False)))
            = filter (\<lambda>t. snd t = ValueReset) (timers w)"
    using close_filters [OF inv] by blast
  have d: "isMountedRef w \<and> v' \<noteq> value_prop w \<longrightarrow>
          filter (\<lambda>t. snd t = ValueReset) (timers (step w (ValuePropChange v')))
            = [(nextTimerId w, ValueReset)]
          \<and> filter (\<lambda>t. snd t = CloseReset) (timers (step w (ValuePropChange v')))
            = filter (\<lambda>t. snd t = CloseReset) (timers w)"
    using value_filters [OF inv] by blast
  have e: "timers (step w (OpenChange True)) = timers w"
    by (rule timers_step_OpenChange_True)
  from a b c d e show ?thesis by blast
qed

theorem search_reset_timers_witness:
  "isMountedRef (run (mount (Some ''a'') test_options) [OpenChange True, OpenChange False])
   \<and> Some ''b'' \<noteq> value_prop (run (mount (Some ''a'') test_options) [OpenChange True, OpenChange False])
   \<and> timers (run (mount (Some ''a'') test_options) [OpenChange True, OpenChange False])
       = [(1, ValueReset), (2, CloseReset)]
   \<and> timers (step (run (mount (Some ''a'') test_options) [OpenChange True, OpenChange False])
        Unmount) = []
   \<and> run (step (run (mount (Some ''a'') test_options) [OpenChange True, OpenChange False]) Unmount)
        [TimerFires 1, TimerFires 2, OpenChange True]
       = step (run (mount (Some ''a'') test_options) [OpenChange True, OpenChange False]) Unmount
   \<and> filter (\<lambda>t. snd t = CloseReset)
        (timers (step (run (mount (Some ''a'') test_options) [OpenChange True, OpenChange False])
           (OpenChange False))) = [(3, CloseReset)]
   \<and> filter (\<lambda>t. snd t = ValueReset)
        (timers (step (run (mount (Some ''a'') test_options) [OpenChange True, OpenChange False])
           (ValuePropChange (Some ''b'')))) = [(3, ValueReset)]"
proof -
  let ?w = "run (mount (Some ''a'') test_options) [OpenChange True, OpenChange False]"
  have m: "isMountedRef ?w" by code_simp
  have v: "Some ''b'' \<noteq> value_prop ?w" by code_simp
  have t: "timers ?w = [(1, ValueReset), (2, CloseReset)]" by code_simp
  have n: "nextTimerId ?w = 3" by code_simp
  from search_reset_timers [of ?w "Some ''a''" test_options "[OpenChange True, OpenChange False]"
      "[TimerFires 1, TimerFires 2, OpenChange True]" "Some ''b''"] m v n
  have "timers (step ?w Unmount) = []
     \<and> run (step ?w Unmount) [TimerFires 1, TimerFires 2, OpenChange True] = step ?w Unmount
     \<and> filter (\<lambda>t. snd t = CloseReset) (timers (step ?w (OpenChange False))) = [(3, CloseReset)]
     \<and> filter (\<lambda>t. snd t = ValueReset) (timers (step ?w (ValuePropChange (Some ''b''))))
         = [(3, ValueReset)]"
    by simp
  with m v t show ?thesis by simp
qed

text \<open>
  The claim as it was stated has a reopen within the delay cancel the reset of the close.
  The popover is closed and reopened, the user types \<open>be\<close>, and the timer of the close
  (handle 2), still pending, fires: the search text of the open popover is emptied.
\<close>

theorem reopen_does_not_cancel_counterexample:
  "is_open (run (mount None test_options)
      [OpenChange True, SearchValueChange ''al'', OpenChange False, OpenChange True,
       SearchValueChange ''be''])
   \<and> searchValue (run (mount None test_options)
      [OpenChange True, SearchValueChange ''al'', OpenChange False, OpenChange True,
       SearchValueChange ''be'']) = ''be''
   \<and> timers (run (mount None test_options)
      [OpenChange True, SearchValueChange ''al'', OpenChange False, OpenChange True,
       SearchValueChange ''be'']) = [(1, ValueReset), (2, CloseReset)]
   \<and> is_open (run (mount None test_options)
      [OpenChange True, SearchValueChange ''al'', OpenChange False, OpenChange True,
       SearchValueChange ''be'', TimerFires 2])
   \<and> searchValue (run (mount None test_options)
      [OpenChange True, SearchValueChange ''al'', OpenChange False, OpenChange True,
       SearchValueChange ''be'', TimerFires 2]) = []"
  by code_simp

end
